theory Spec2Isabelle
  imports
    Main
    "HOL-Library.AList"
    "HOL-Library.Char_ord"
    "HOL-Library.List_Lexorder"
begin

section \<open>Values, errors and patterns\<close>

text \<open>
  The embedding follows \<^verbatim>\<open>py_src/jupyter_lsp/types.py\<close> and
  \<^verbatim>\<open>py_src/jupyter_lsp/manager.py\<close>. A Python exception is a value of
  \<open>error\<close>; a function that may raise returns \<open>error + 'a\<close> with \<open>Inl\<close> for
  the exception.
\<close>

datatype error =
    KeyError
  | TypeError
  | JSONDecodeError
  | ListenerError string

text \<open>
  What \<^verbatim>\<open>json.loads\<close> may return. Numbers are kept as integers: no function
  below looks inside a number. An object is the list of its items; \<open>map_of\<close> reads it.
\<close>

datatype json =
    JNull
  | JBool bool
  | JNum int
  | JStr string
  | JArr "json list"
  | JObj "(string \<times> json) list"

text \<open>
  \<^verbatim>\<open>message["method"]\<close>: subscripting a dict raises KeyError on a missing
  key; subscripting any other JSON value with a string raises TypeError.
\<close>

fun getitem :: "json \<Rightarrow> string \<Rightarrow> error + json" where
  "getitem (JObj items) k =
     (case map_of items k of None \<Rightarrow> Inl KeyError | Some v \<Rightarrow> Inr v)"
| "getitem _ k = Inl TypeError"

subsection \<open>Compiled patterns and \<^verbatim>\<open>re.match\<close>\<close>

text \<open>
  A compiled pattern is given by its syntax tree (the regular fragment of Python's
  pattern language; \<^verbatim>\<open>re.compile\<close> itself is not modelled). \<open>Dot\<close> is
  \<^verbatim>\<open>.\<close>, which matches every character but the newline.
\<close>

datatype rexp =
    Nothing
  | Eps
  | Chr char
  | Dot
  | Alt rexp rexp
  | Seq rexp rexp
  | Star rexp

text \<open>The pattern that a text without special characters compiles to.\<close>

fun lit :: "string \<Rightarrow> rexp" where
  "lit [] = Eps"
| "lit (c # cs) = Seq (Chr c) (lit cs)"

fun nullable :: "rexp \<Rightarrow> bool" where
  "nullable Nothing = False"
| "nullable Eps = True"
| "nullable (Chr c) = False"
| "nullable Dot = False"
| "nullable (Alt r s) = (nullable r \<or> nullable s)"
| "nullable (Seq r s) = (nullable r \<and> nullable s)"
| "nullable (Star r) = True"

fun deriv :: "char \<Rightarrow> rexp \<Rightarrow> rexp" where
  "deriv a Nothing = Nothing"
| "deriv a Eps = Nothing"
| "deriv a (Chr c) = (if a = c then Eps else Nothing)"
| "deriv a Dot = (if a = CHR 0x0A then Nothing else Eps)"
| "deriv a (Alt r s) = Alt (deriv a r) (deriv a s)"
| "deriv a (Seq r s) =
     (if nullable r then Alt (Seq (deriv a r) s) (deriv a s) else Seq (deriv a r) s)"
| "deriv a (Star r) = Seq (deriv a r) (Star r)"

text \<open>
  \<^verbatim>\<open>re.match(pattern, string) is not None\<close>: the pattern matches zero or
  more characters at the beginning of the string.
\<close>

fun re_match :: "rexp \<Rightarrow> string \<Rightarrow> bool" where
  "re_match r [] = nullable r"
| "re_match r (c # cs) = (nullable r \<or> re_match (deriv c r) cs)"

text \<open>
  \<^verbatim>\<open>re.search(pattern, string) is not None\<close>: the pattern matches at some
  position of the string. The sources never call it; it is what the specification
  describes, kept here for comparison with \<open>re_match\<close>.
\<close>

fun re_search :: "rexp \<Rightarrow> string \<Rightarrow> bool" where
  "re_search r [] = nullable r"
| "re_search r (c # cs) = (re_match r (c # cs) \<or> re_search r cs)"

text \<open>The words a pattern denotes, to state what the two functions compute.\<close>

inductive_set star :: "string set \<Rightarrow> string set" for A :: "string set" where
  star_nil: "[] \<in> star A"
| star_app: "u \<in> A \<Longrightarrow> v \<in> star A \<Longrightarrow> u @ v \<in> star A"

fun lang :: "rexp \<Rightarrow> string set" where
  "lang Nothing = {}"
| "lang Eps = {[]}"
| "lang (Chr c) = {[c]}"
| "lang Dot = {[c] | c. c \<noteq> CHR 0x0A}"
| "lang (Alt r s) = lang r \<union> lang s"
| "lang (Seq r s) = {u @ v | u v. u \<in> lang r \<and> v \<in> lang s}"
| "lang (Star r) = star (lang r)"

section \<open>Listeners (\<^verbatim>\<open>types.py\<close>)\<close>

datatype scope = Client | Server | All_scopes

text \<open>
  A listener callback is a coroutine function called with the scope, the parsed message
  and the languages. Awaited, it runs to its end: it ends at some time, counted in turns
  of the event loop, and then has completed (\<open>None\<close>) or raised (\<open>Some e\<close>). What a
  callback does besides is outside the sources.
\<close>

type_synonym callback = "scope \<Rightarrow> json \<Rightarrow> string list \<Rightarrow> nat \<times> error option"

text \<open>
  \<^verbatim>\<open>class MessageListener\<close>. The constructor compiles each pattern text that
  is given and not empty, and stores \<^verbatim>\<open>None\<close> otherwise, so the two pattern
  fields are optional compiled patterns; the field \<^verbatim>\<open>method\<close> is
  written \<open>method_pattern\<close>.
\<close>

record MessageListener =
  listener :: callback
  language :: "rexp option"
  method_pattern :: "rexp option"

text \<open>
  \<^verbatim>\<open>
  def wants(self, message, languages):
      if self.method and re.match(self.method, message["method"]) is None:
          return False
      return self.language is None or any(
          [re.match(self.language, lang) is not None for lang in languages]
      )
  \<close>
  \<^verbatim>\<open>re.match\<close> raises TypeError when the subject is not a string.
\<close>

definition wants_language :: "MessageListener \<Rightarrow> string list \<Rightarrow> bool" where
  "wants_language l languages =
     (case MessageListener.language l of
        None \<Rightarrow> True
      | Some p \<Rightarrow> list_ex (\<lambda>lang. re_match p lang) languages)"

definition wants :: "MessageListener \<Rightarrow> json \<Rightarrow> string list \<Rightarrow> error + bool" where
  "wants l message languages =
     (case method_pattern l of
        None \<Rightarrow> Inr (wants_language l languages)
      | Some p \<Rightarrow>
          (case getitem message ''method'' of
             Inl e \<Rightarrow> Inl e
           | Inr (JStr m) \<Rightarrow>
               if \<not> re_match p m then Inr False
               else Inr (wants_language l languages)
           | Inr _ \<Rightarrow> Inl TypeError))"

section \<open>The manager's data (\<^verbatim>\<open>manager.py\<close>)\<close>

text \<open>
  \<^verbatim>\<open>LanguageServerSpec = Dict[Text, Any]\<close>. The manager reads two keys of a
  spec, \<^verbatim>\<open>argv\<close> and \<^verbatim>\<open>languages\<close>; each is a list of strings when
  present (the JSON schema that says so, \<^verbatim>\<open>schema.py\<close>, is not among the
  sources) and \<open>None\<close> when the key is absent. The languages of a spec are a set of
  identifiers: a valid spec lists none of them twice, which the properties of the session
  table take as a hypothesis.
\<close>

record LanguageServerSpec =
  argv :: "string list option"
  languages :: "string list option"

text \<open>
  A dict in insertion order is the list of its items. \<^verbatim>\<open>d[k] = v\<close> is
  \<open>AList.update k v d\<close>: the value is replaced in place when the key is there, the item
  is appended otherwise.
\<close>

type_synonym KeyedLanguageServerSpecs = "(string \<times> LanguageServerSpec) list"

text \<open>\<^verbatim>\<open>d.update(items)\<close>, for a dict or an iterable of pairs.\<close>

definition dict_update :: "('k \<times> 'v) list \<Rightarrow> ('k \<times> 'v) list \<Rightarrow> ('k \<times> 'v) list" where
  "dict_update d items = fold (\<lambda>(k, v) acc. AList.update k v acc) items d"

text \<open>
  The truth value of \<^verbatim>\<open>spec.get(key)\<close>: false for a missing key
  (\<^verbatim>\<open>None\<close>) and for an empty list.
\<close>

fun truthy :: "'a list option \<Rightarrow> bool" where
  "truthy None = False"
| "truthy (Some []) = False"
| "truthy (Some (x # xs)) = True"

text \<open>
  A client handler: an object with a \<^verbatim>\<open>language\<close> attribute, compared by
  identity.
\<close>

record handler =
  ident :: nat
  language :: string

text \<open>
  The value held by \<^verbatim>\<open>session.handlers\<close> is a Python set or a Python list.
  A set is written as the list of its members without repetition (the order stands for
  the order in which Python iterates over the set).
\<close>

datatype handlers_value = PySet "handler list" | PyList "handler list"

fun elems :: "handlers_value \<Rightarrow> handler list" where
  "elems (PySet hs) = hs"
| "elems (PyList hs) = hs"

text \<open>
  \<^verbatim>\<open>set(xs) | v\<close>: the union when \<open>v\<close> is a set; the operator \<^verbatim>\<open>|\<close>
  between a set and a list raises TypeError.
\<close>

fun set_or :: "handler list \<Rightarrow> handlers_value \<Rightarrow> error + handlers_value" where
  "set_or xs (PySet ys) = Inr (PySet (List.union xs ys))"
| "set_or xs (PyList ys) = Inl TypeError"

text \<open>
  The class \<^verbatim>\<open>LanguageServerSession\<close> is declared in
  \<^verbatim>\<open>session.py\<close>, which is not among the sources; the manager constructs
  sessions from a spec and reads and assigns their attributes \<^verbatim>\<open>spec\<close> and
  \<^verbatim>\<open>handlers\<close>.
\<close>

record LanguageServerSession =
  spec :: LanguageServerSpec
  handlers :: handlers_value

text \<open>
  Modelled from the spec: the constructor of \<^verbatim>\<open>LanguageServerSession\<close> is
  missing. The specification has a session "constructed from a ServerSpec" that "tracks
  a set of subscribed handlers", and sessions are "constructed but not started": a new
  session holds its spec and the empty set of handlers.
\<close>

definition new_session :: "LanguageServerSpec \<Rightarrow> LanguageServerSession" where
  "new_session s = \<lparr>spec = s, handlers = PySet []\<rparr>"

text \<open>
  What a session holds after \<^verbatim>\<open>session.handlers = v\<close> is decided by the
  missing class, so the functions that assign take it as their argument \<open>store\<close>.
  Two candidates follow. A plain attribute holds the value as it was assigned.
\<close>

definition stored_as_assigned :: "handlers_value \<Rightarrow> handlers_value" where
  "stored_as_assigned v = v"

text \<open>
  Modelled from the spec: the attribute \<^verbatim>\<open>handlers\<close> of
  \<^verbatim>\<open>LanguageServerSession\<close> is missing. The specification calls it "the
  mutable subscriber set" and says that "a session tracks a set of subscribed handlers":
  the session keeps a set. An assigned set is kept as it is, an assigned list is kept as
  the set of its members.
\<close>

fun kept_as_set :: "handlers_value \<Rightarrow> handlers_value" where
  "kept_as_set (PySet hs) = PySet hs"
| "kept_as_set (PyList hs) = PySet (remdups hs)"

text \<open>
  The invariant of \<^verbatim>\<open>session.handlers\<close>: the value is a set, each member
  written once.
\<close>

fun is_set :: "handlers_value \<Rightarrow> bool" where
  "is_set (PySet hs) = distinct hs"
| "is_set (PyList hs) = False"

text \<open>
  \<^verbatim>\<open>class LanguageServerManager(LanguageServerManagerAPI)\<close> with the traits
  and the class attribute \<^verbatim>\<open>_listeners\<close> of its base classes. Sessions are
  keyed by the tuple of languages served.
\<close>

record LanguageServerManager =
  language_servers :: KeyedLanguageServerSpecs
  autodetect :: bool
  sessions :: "(string list \<times> LanguageServerSession) list"
  listeners :: "scope \<Rightarrow> MessageListener list"
  node_roots :: "string list"
  extra_node_roots :: "string list"

section \<open>Resolving the specs and building the sessions\<close>

text \<open>
  \<^verbatim>\<open>
  def init_language_servers(self) -> None:
      language_servers = {}
      language_servers_from_config = dict(self.language_servers)
      if self.autodetect:
          language_servers.update(self._autodetect_language_servers())
      language_servers.update(language_servers_from_config)
      self.language_servers = {
          key: spec
          for key, spec in language_servers.items()
          if spec.get("argv") and spec.get("languages")
      }
  \<close>
  The pairs that \<^verbatim>\<open>_autodetect_language_servers\<close> yields come from the
  installed entry points; they are the argument \<open>detected\<close>.
\<close>

definition init_language_servers ::
  "(string \<times> LanguageServerSpec) list \<Rightarrow> LanguageServerManager \<Rightarrow> LanguageServerManager" where
  "init_language_servers detected self =
     (let language_servers_from_config = language_servers self;
          servers = (if autodetect self then dict_update [] detected else []);
          servers = dict_update servers language_servers_from_config
      in self\<lparr>language_servers :=
           filter (\<lambda>(key, s). truthy (argv s) \<and> truthy (languages s)) servers\<rparr>)"

text \<open>
  \<^verbatim>\<open>
  def init_sessions(self):
      sessions = {}
      for spec in self.language_servers.values():
          sessions[tuple(sorted(spec["languages"]))] = LanguageServerSession(
              spec=spec, parent=self
          )
      self.sessions = sessions
  \<close>
  \<^verbatim>\<open>spec["languages"]\<close> raises KeyError when the key is absent. Strings are
  ordered as Python orders them, character by character.
\<close>

fun init_sessions_loop ::
  "LanguageServerSpec list \<Rightarrow> (string list \<times> LanguageServerSession) list
     \<Rightarrow> error + (string list \<times> LanguageServerSession) list" where
  "init_sessions_loop [] acc = Inr acc"
| "init_sessions_loop (s # rest) acc =
     (case languages s of
        None \<Rightarrow> Inl KeyError
      | Some ls \<Rightarrow> init_sessions_loop rest (AList.update (sort ls) (new_session s) acc))"

definition init_sessions :: "LanguageServerManager \<Rightarrow> error + LanguageServerManager" where
  "init_sessions self =
     (case init_sessions_loop (map snd (language_servers self)) [] of
        Inl e \<Rightarrow> Inl e
      | Inr acc \<Rightarrow> Inr (self\<lparr>sessions := acc\<rparr>))"

definition initialize ::
  "(string \<times> LanguageServerSpec) list \<Rightarrow> LanguageServerManager \<Rightarrow> error + LanguageServerManager" where
  "initialize detected self = init_sessions (init_language_servers detected self)"

section \<open>Subscriptions\<close>

text \<open>
  \<^verbatim>\<open>
  def subscribe(self, handler):
      sessions = []
      for languages, candidate_session in self.sessions.items():
          if handler.language in languages:
              sessions.append(candidate_session)
      if sessions:
          for session in sessions:
              session.handlers = set([handler]) | session.handlers
  \<close>
  A session object is named by its position in \<^verbatim>\<open>self.sessions\<close>. A method
  that changes the manager and may raise returns the outcome together with the manager as
  the call leaves it. The assignment stores \<open>store v\<close>.
\<close>

definition candidate_sessions :: "LanguageServerManager \<Rightarrow> handler \<Rightarrow> nat list" where
  "candidate_sessions self h =
     filter (\<lambda>i. handler.language h \<in> set (fst (sessions self ! i)))
       [0..<length (sessions self)]"

fun subscribe_loop ::
  "(handlers_value \<Rightarrow> handlers_value) \<Rightarrow> handler \<Rightarrow> nat list
     \<Rightarrow> (string list \<times> LanguageServerSession) list
     \<Rightarrow> (error + unit) \<times> (string list \<times> LanguageServerSession) list" where
  "subscribe_loop store h [] ss = (Inr (), ss)"
| "subscribe_loop store h (i # rest) ss =
     (case set_or [h] (handlers (snd (ss ! i))) of
        Inl e \<Rightarrow> (Inl e, ss)
      | Inr v \<Rightarrow>
          subscribe_loop store h rest
            (ss[i := (fst (ss ! i), (snd (ss ! i))\<lparr>handlers := store v\<rparr>)]))"

definition subscribe ::
  "(handlers_value \<Rightarrow> handlers_value) \<Rightarrow> LanguageServerManager \<Rightarrow> handler
     \<Rightarrow> (error + unit) \<times> LanguageServerManager" where
  "subscribe store self h =
     (case subscribe_loop store h (candidate_sessions self h) (sessions self) of
        (r, ss) \<Rightarrow> (r, self\<lparr>sessions := ss\<rparr>))"

text \<open>What the loop does to one session whose handlers are a set.\<close>

definition add_handler :: "handler \<Rightarrow> string list \<times> LanguageServerSession \<Rightarrow> string list \<times> LanguageServerSession" where
  "add_handler h ks = (fst ks, (snd ks)\<lparr>handlers := PySet (List.insert h (elems (handlers (snd ks))))\<rparr>)"

text \<open>
  \<^verbatim>\<open>
  def sessions_for_handler(self, handler):
      for session in self.sessions.values():
          if handler in session.handlers:
              yield session

  def unsubscribe(self, handler):
      for session in self.sessions_for_handler(handler):
          session.handlers = [h for h in session.handlers if h != handler]
  \<close>
  The generator is consumed one session at a time, so \<open>unsubscribe\<close> is one pass over
  the sessions.
\<close>

definition sessions_for_handler ::
  "LanguageServerManager \<Rightarrow> handler \<Rightarrow> (string list \<times> LanguageServerSession) list" where
  "sessions_for_handler self h =
     filter (\<lambda>(k, session). h \<in> set (elems (handlers session))) (sessions self)"

definition unsubscribe ::
  "(handlers_value \<Rightarrow> handlers_value) \<Rightarrow> LanguageServerManager \<Rightarrow> handler
     \<Rightarrow> LanguageServerManager" where
  "unsubscribe store self h =
     self\<lparr>sessions :=
       map (\<lambda>(k, session).
              if h \<in> set (elems (handlers session))
              then (k, session\<lparr>handlers :=
                     store (PyList (filter (\<lambda>h'. h' \<noteq> h) (elems (handlers session))))\<rparr>)
              else (k, session))
           (sessions self)\<rparr>"

section \<open>Dispatch to listeners and routing\<close>

text \<open>
  What one call does to the outside, in order: a listener's coroutine has run to its
  end (the listener is named by its position in the list of candidate listeners), a
  message is written to a session (named by its key), a message is written to a handler.
\<close>

datatype event =
    Listener_ran nat
  | Session_write "string list" string
  | Handler_write handler string

fun is_delivery :: "event \<Rightarrow> bool" where
  "is_delivery (Listener_ran i) = False"
| "is_delivery (Session_write k message) = True"
| "is_delivery (Handler_write h message) = True"

text \<open>
  The list comprehension of \<open>wait_for_listeners\<close>: each candidate is asked
  \<^verbatim>\<open>wants\<close> in turn and, if it does, called, which creates its coroutine
  without running it. An exception of \<^verbatim>\<open>wants\<close> ends the comprehension. A
  future is the position of its listener with what awaiting the coroutine gives: the time
  at which it ends and how.
\<close>

fun make_futures ::
  "scope \<Rightarrow> json \<Rightarrow> string list \<Rightarrow> (nat \<times> MessageListener) list
     \<Rightarrow> error + (nat \<times> nat \<times> error option) list" where
  "make_futures sc message_dict langs [] = Inr []"
| "make_futures sc message_dict langs ((i, l) # rest) =
     (case wants l message_dict langs of
        Inl e \<Rightarrow> Inl e
      | Inr w \<Rightarrow>
          (case make_futures sc message_dict langs rest of
             Inl e \<Rightarrow> Inl e
           | Inr futures \<Rightarrow>
               Inr (if w then (i, listener l sc message_dict langs) # futures
                    else futures)))"

text \<open>
  \<^verbatim>\<open>await asyncio.gather(*futures)\<close> without
  \<^verbatim>\<open>return_exceptions\<close>: every awaitable is scheduled and none is
  cancelled, so each coroutine runs to its end. The coroutines end in the order of their
  times, those of the same time in the order of the list (the sort is stable). The
  exception of the first coroutine that ends by raising is propagated to the caller;
  when none raises, the call returns after the last has ended. The trace has every
  coroutine at its end, also those that end after an exception was propagated.
\<close>

definition gather :: "(nat \<times> nat \<times> error option) list \<Rightarrow> (error + unit) \<times> event list" where
  "gather futures =
     (let finished = sort_key (\<lambda>f. fst (snd f)) futures
      in (case List.map_filter (\<lambda>f. snd (snd f)) finished of
            [] \<Rightarrow> Inr ()
          | e # es \<Rightarrow> Inl e,
          map (\<lambda>f. Listener_ran (fst f)) finished))"

text \<open>
  \<^verbatim>\<open>
  async def wait_for_listeners(self, scope, message, languages) -> None:
      listeners = self._listeners[scope] + self._listeners["all"]
      if listeners:
          message_dict = json.loads(message)
          futures = [
              listener(scope, message=message_dict, languages=languages, manager=self)
              for listener in listeners
              if listener.wants(message_dict, languages)
          ]
          if futures:
              await asyncio.gather(*futures)
  \<close>
  \<^verbatim>\<open>json.loads\<close> is the argument \<open>loads\<close>: it returns the parsed value or
  raises.
\<close>

definition wait_for_listeners ::
  "(string \<Rightarrow> error + json) \<Rightarrow> LanguageServerManager \<Rightarrow> scope \<Rightarrow> string \<Rightarrow> string list
     \<Rightarrow> (error + unit) \<times> event list" where
  "wait_for_listeners loads self sc message langs =
     (let ls = listeners self sc @ listeners self All_scopes in
      if ls = [] then (Inr (), [])
      else
        (case loads message of
           Inl e \<Rightarrow> (Inl e, [])
         | Inr message_dict \<Rightarrow>
             (case make_futures sc message_dict langs (enumerate 0 ls) of
                Inl e \<Rightarrow> (Inl e, [])
              | Inr futures \<Rightarrow> if futures = [] then (Inr (), []) else gather futures)))"

text \<open>
  \<^verbatim>\<open>
  async def on_client_message(self, message, handler):
      await self.wait_for_listeners("client", message, [handler.language])
      for session in self.sessions_for_handler(handler):
          session.write(message)

  async def on_server_message(self, message, session):
      await self.wait_for_listeners("server", message, session.spec["languages"])
      for handler in session.handlers:
          handler.write_message(message)
  \<close>
\<close>

definition on_client_message ::
  "(string \<Rightarrow> error + json) \<Rightarrow> LanguageServerManager \<Rightarrow> string \<Rightarrow> handler
     \<Rightarrow> (error + unit) \<times> event list" where
  "on_client_message loads self message h =
     (case wait_for_listeners loads self Client message [handler.language h] of
        (Inl e, evs) \<Rightarrow> (Inl e, evs)
      | (Inr u, evs) \<Rightarrow>
          (Inr (), evs @ map (\<lambda>(k, session). Session_write k message)
                           (sessions_for_handler self h)))"

definition on_server_message ::
  "(string \<Rightarrow> error + json) \<Rightarrow> LanguageServerManager \<Rightarrow> string \<Rightarrow> LanguageServerSession
     \<Rightarrow> (error + unit) \<times> event list" where
  "on_server_message loads self message session =
     (case languages (spec session) of
        None \<Rightarrow> (Inl KeyError, [])
      | Some ls \<Rightarrow>
          (case wait_for_listeners loads self Server message ls of
             (Inl e, evs) \<Rightarrow> (Inl e, evs)
           | (Inr u, evs) \<Rightarrow>
               (Inr (), evs @ map (\<lambda>h. Handler_write h message) (elems (handlers session)))))"

section \<open>Looking up a node module (\<^verbatim>\<open>types.py\<close>)\<close>

text \<open>
  \<^verbatim>\<open>
  def find_node_module(self, *path_frag):
      all_roots = self.extra_node_roots + self.node_roots
      found = None
      for candidate_root in all_roots:
          candidate = pathlib.Path(candidate_root, "node_modules", *path_frag)
          self.log.debug("Checking for %s", candidate)
          if candidate.exists():
              found = str(candidate)
              break
      if found is None:  # pragma: no cover
          self.log.debug(
              "%s not found in node_modules of %s", pathlib.Path(path_frag), all_roots
          )
      return found
  \<close>
  A path is the list of the segments it is built from; the file system is the argument
  \<open>exists\<close>. In the branch \<^verbatim>\<open>if found is None\<close> the arguments of
  \<^verbatim>\<open>log.debug\<close> are evaluated before the call:
  \<^verbatim>\<open>pathlib.Path(path_frag)\<close> is given the tuple of the fragments, which is
  neither a string nor a path, and raises TypeError, so \<^verbatim>\<open>return found\<close> is
  reached only with a path.
\<close>

definition Path :: "string \<Rightarrow> string list \<Rightarrow> string list" where
  "Path candidate_root path_frag = candidate_root # ''node_modules'' # path_frag"

fun find_loop :: "(string list \<Rightarrow> bool) \<Rightarrow> string list \<Rightarrow> string list \<Rightarrow> string list option" where
  "find_loop exists path_frag [] = None"
| "find_loop exists path_frag (candidate_root # rest) =
     (if exists (Path candidate_root path_frag) then Some (Path candidate_root path_frag)
      else find_loop exists path_frag rest)"

definition find_node_module ::
  "(string list \<Rightarrow> bool) \<Rightarrow> LanguageServerManager \<Rightarrow> string list
     \<Rightarrow> error + string list option" where
  "find_node_module exists self path_frag =
     (let all_roots = extra_node_roots self @ node_roots self;
          found = find_loop exists path_frag all_roots
      in if found = None then Inl TypeError else Inr found)"

section \<open>Example inputs\<close>

text \<open>
  A callback that completes, one that raises in the same turn, and one that raises a
  turn later.
\<close>

definition quiet :: callback where "quiet sc message langs = (1, None)"
definition failing :: callback where "failing sc message langs = (1, Some (ListenerError ''boom''))"
definition failing_late :: callback where "failing_late sc message langs = (2, Some (ListenerError ''late''))"

text \<open>Specs and managers for the examples of spec resolution and session building.\<close>

definition pyls_spec :: LanguageServerSpec where
  "pyls_spec = \<lparr>argv = Some [''pyls''], languages = Some [''python'']\<rparr>"

definition disabled_spec :: LanguageServerSpec where
  "disabled_spec = \<lparr>argv = Some [], languages = Some []\<rparr>"

definition no_listeners :: "scope \<Rightarrow> MessageListener list" where
  "no_listeners sc = []"

definition override_manager :: LanguageServerManager where
  "override_manager =
     \<lparr>language_servers = [(''py'', disabled_spec)], autodetect = True, sessions = [],
      listeners = no_listeners, node_roots = [], extra_node_roots = []\<rparr>"

definition jedi_spec :: LanguageServerSpec where
  "jedi_spec = \<lparr>argv = Some [''jedi-language-server''], languages = Some [''python'']\<rparr>"

definition yaml_json_spec :: LanguageServerSpec where
  "yaml_json_spec = \<lparr>argv = Some [''vscode-json''], languages = Some [''yaml'', ''json'']\<rparr>"

definition same_language_manager :: LanguageServerManager where
  "same_language_manager =
     \<lparr>language_servers = [(''pyls'', pyls_spec), (''json'', yaml_json_spec), (''jedi'', jedi_spec)],
      autodetect = True, sessions = [],
      listeners = no_listeners, node_roots = [], extra_node_roots = []\<rparr>"

text \<open>Handlers and a manager with two sessions, one of them subscribed to.\<close>

definition json_handler :: handler where
  "json_handler = \<lparr>ident = 1, language = ''json''\<rparr>"

definition python_handler :: handler where
  "python_handler = \<lparr>ident = 2, language = ''python''\<rparr>"

definition other_python_handler :: handler where
  "other_python_handler = \<lparr>ident = 3, language = ''python''\<rparr>"

definition running_manager :: LanguageServerManager where
  "running_manager =
     \<lparr>language_servers = [(''pyls'', pyls_spec), (''json'', yaml_json_spec)],
      autodetect = True,
      sessions = [([''python''], \<lparr>spec = pyls_spec, handlers = PySet [python_handler]\<rparr>),
                  ([''json'', ''yaml''], \<lparr>spec = yaml_json_spec, handlers = PySet []\<rparr>)],
      listeners = no_listeners, node_roots = [], extra_node_roots = []\<rparr>"

text \<open>Roots for the module lookup.\<close>

definition roots_manager :: LanguageServerManager where
  "roots_manager =
     \<lparr>language_servers = [], autodetect = True, sessions = [], listeners = no_listeners,
      node_roots = [''/srv/app'', ''/usr/lib''], extra_node_roots = [''/opt/extra'']\<rparr>"

text \<open>A file system in which the module is installed under two of the three roots.\<close>

definition installed :: "string list \<Rightarrow> bool" where
  "installed p =
     (p = [''/opt/extra'', ''node_modules'', ''yaml-language-server'', ''bin''] \<or>
      p = [''/usr/lib'', ''node_modules'', ''yaml-language-server'', ''bin''])"

text \<open>
  Two payloads, and \<^verbatim>\<open>json.loads\<close> on them: the first parses, the second
  is not JSON. Then two tables of listeners and the managers that hold them.
\<close>

definition initialize_message :: string where
  \<open>initialize_message = ''{"method": "initialize"}''\<close>

definition garbled_message :: string where
  "garbled_message = ''Content-Length: 2''"

definition example_loads :: "string \<Rightarrow> error + json" where
  "example_loads raw =
     (if raw = initialize_message then Inr (JObj [(''method'', JStr ''initialize'')])
      else Inl JSONDecodeError)"

fun two_failing :: "scope \<Rightarrow> MessageListener list" where
  "two_failing Client =
     [\<lparr>listener = failing_late, language = None, method_pattern = None\<rparr>,
      \<lparr>listener = failing, language = None, method_pattern = None\<rparr>,
      \<lparr>listener = quiet, language = None, method_pattern = None\<rparr>]"
| "two_failing Server = []"
| "two_failing All_scopes = []"

fun quiet_all :: "scope \<Rightarrow> MessageListener list" where
  "quiet_all Client = []"
| "quiet_all Server = []"
| "quiet_all All_scopes = [\<lparr>listener = quiet, language = Some (lit ''python''), method_pattern = None\<rparr>]"

definition failing_manager :: LanguageServerManager where
  "failing_manager = running_manager\<lparr>listeners := two_failing\<rparr>"

definition observed_manager :: LanguageServerManager where
  "observed_manager = running_manager\<lparr>listeners := quiet_all\<rparr>"

section \<open>What the patterns match\<close>

lemma nullable_lang: "nullable r \<longleftrightarrow> [] \<in> lang r"
  by (induction r) (auto intro: star.star_nil)

lemma star_cons_split:
  "a # w \<in> star A \<longleftrightarrow> (\<exists>u v. w = u @ v \<and> a # u \<in> A \<and> v \<in> star A)"
proof
  assume "a # w \<in> star A"
  then show "\<exists>u v. w = u @ v \<and> a # u \<in> A \<and> v \<in> star A"
  proof (induction "a # w" arbitrary: w rule: star.induct)
    case (star_app u v)
    show ?case
    proof (cases u)
      case Nil
      with star_app.hyps(4) have "v = a # w" by simp
      then show ?thesis by (rule star_app.hyps(3))
    next
      case (Cons b u')
      with star_app.hyps(4) have "w = u' @ v" "b = a" by simp_all
      moreover from Cons star_app.hyps(1) \<open>b = a\<close> have "a # u' \<in> A" by simp
      ultimately show ?thesis using star_app.hyps(2) by blast
    qed
  qed
next
  assume "\<exists>u v. w = u @ v \<and> a # u \<in> A \<and> v \<in> star A"
  then obtain u v where "w = u @ v" "a # u \<in> A" "v \<in> star A" by blast
  then show "a # w \<in> star A"
    using star.star_app [of "a # u" A v] by simp
qed

lemma seq_fwd:
  assumes IH1: "\<And>w. w \<in> lang (deriv a r) \<longleftrightarrow> a # w \<in> lang r"
    and IH2: "\<And>w. w \<in> lang (deriv a s) \<longleftrightarrow> a # w \<in> lang s"
    and w: "w \<in> lang (deriv a (Seq r s))"
  shows "a # w \<in> lang (Seq r s)"
proof -
  from w consider
      (left) u v where "w = u @ v" "u \<in> lang (deriv a r)" "v \<in> lang s"
    | (right) "nullable r" "w \<in> lang (deriv a s)"
    by (auto split: if_splits)
  then show ?thesis
  proof cases
    case left
    then have "a # w = (a # u) @ v \<and> a # u \<in> lang r \<and> v \<in> lang s"
      by (simp add: IH1)
    then show ?thesis unfolding lang.simps by blast
  next
    case right
    then have "a # w = [] @ (a # w) \<and> [] \<in> lang r \<and> a # w \<in> lang s"
      by (simp add: IH2 nullable_lang)
    then show ?thesis unfolding lang.simps by blast
  qed
qed


lemma seq_bwd:
  assumes IH1: "\<And>w. w \<in> lang (deriv a r) \<longleftrightarrow> a # w \<in> lang r"
    and IH2: "\<And>w. w \<in> lang (deriv a s) \<longleftrightarrow> a # w \<in> lang s"
    and w: "a # w \<in> lang (Seq r s)"
  shows "w \<in> lang (deriv a (Seq r s))"
proof -
  from w obtain u v where uv: "a # w = u @ v" "u \<in> lang r" "v \<in> lang s" by auto
  show ?thesis
  proof (cases u)
    case Nil
    with uv have "nullable r" "w \<in> lang (deriv a s)" by (simp_all add: nullable_lang IH2)
    then show ?thesis by simp
  next
    case (Cons b u')
    with uv(1) have eq: "w = u' @ v" "b = a" by simp_all
    with Cons uv(2) have "a # u' \<in> lang r" by simp
    then have "u' \<in> lang (deriv a r)" by (simp add: IH1)
    with eq(1)
    have "w \<in> lang (Seq (deriv a r) s)" using uv(3) unfolding lang.simps by blast
    then show ?thesis by simp
  qed
qed

lemma lang_deriv: "w \<in> lang (deriv a r) \<longleftrightarrow> a # w \<in> lang r"
proof (induction r arbitrary: w)
  case (Seq r s)
  then show ?case using seq_fwd [of a r s w] seq_bwd [of a r s w] by blast
next
  case (Star r)
  then show ?case by (simp add: star_cons_split)
qed auto

lemma re_match_lang: "re_match r s \<longleftrightarrow> (\<exists>p q. s = p @ q \<and> p \<in> lang r)"
proof (induction s arbitrary: r)
  case Nil
  then show ?case by (simp add: nullable_lang)
next
  case (Cons c cs)
  show ?case
  proof
    assume "re_match r (c # cs)"
    then consider "nullable r" | "re_match (deriv c r) cs" by auto
    then show "\<exists>p q. c # cs = p @ q \<and> p \<in> lang r"
    proof cases
      case 1
      then have "c # cs = [] @ (c # cs) \<and> [] \<in> lang r" by (simp add: nullable_lang)
      then show ?thesis by blast
    next
      case 2
      then obtain p q where "cs = p @ q" "p \<in> lang (deriv c r)" using Cons.IH by blast
      then have "c # cs = (c # p) @ q \<and> c # p \<in> lang r" by (simp add: lang_deriv)
      then show ?thesis by blast
    qed
  next
    assume "\<exists>p q. c # cs = p @ q \<and> p \<in> lang r"
    then obtain p q where pq: "c # cs = p @ q" "p \<in> lang r" by blast
    show "re_match r (c # cs)"
    proof (cases p)
      case Nil
      with pq(2) have "nullable r" by (simp add: nullable_lang)
      then show ?thesis by simp
    next
      case (Cons b p')
      with pq(1) have eq: "cs = p' @ q" "b = c" by simp_all
      with Cons pq(2) have "p' \<in> lang (deriv c r)" by (simp add: lang_deriv)
      with eq(1) have "re_match (deriv c r) cs" using Cons.IH by blast
      then show ?thesis by simp
    qed
  qed
qed

lemma re_search_lang: "re_search r s \<longleftrightarrow> (\<exists>u p q. s = u @ p @ q \<and> p \<in> lang r)"
proof (induction s)
  case Nil
  then show ?case by (simp add: nullable_lang)
next
  case (Cons c cs)
  show ?case
  proof
    assume "re_search r (c # cs)"
    then consider "re_match r (c # cs)" | "re_search r cs" by auto
    then show "\<exists>u p q. c # cs = u @ p @ q \<and> p \<in> lang r"
    proof cases
      case 1
      then obtain p q where "c # cs = [] @ p @ q \<and> p \<in> lang r"
        by (auto simp: re_match_lang simp del: re_match.simps)
      then show ?thesis by blast
    next
      case 2
      then obtain u p q where "cs = u @ p @ q" "p \<in> lang r" using Cons.IH by blast
      then have "c # cs = (c # u) @ p @ q \<and> p \<in> lang r" by simp
      then show ?thesis by blast
    qed
  next
    assume "\<exists>u p q. c # cs = u @ p @ q \<and> p \<in> lang r"
    then obtain u p q where upq: "c # cs = u @ p @ q" "p \<in> lang r" by blast
    show "re_search r (c # cs)"
    proof (cases u)
      case Nil
      with upq have "re_match r (c # cs)"
        by (auto simp: re_match_lang simp del: re_match.simps)
      then show ?thesis by simp
    next
      case (Cons b u')
      with upq have "cs = u' @ p @ q" by simp
      with upq(2) have "re_search r cs" using Cons.IH by blast
      then show ?thesis by simp
    qed
  qed
qed

lemma lang_lit: "lang (lit s) = {s}"
  by (induction s) auto

section \<open>Which messages a listener wants\<close>

lemma wants_language_prefix:
  "wants_language l langs \<longleftrightarrow>
     (case MessageListener.language l of
        None \<Rightarrow> True
      | Some p \<Rightarrow> \<exists>x \<in> set langs. \<exists>u v. x = u @ v \<and> u \<in> lang p)"
  by (simp add: wants_language_def list_ex_iff re_match_lang split: option.split)

text \<open>
  C2, as amended. A listener accepts a message exactly when its method pattern, if any,
  matches a prefix of the message's \<^verbatim>\<open>method\<close> string and its language
  pattern, if any, matches a prefix of one of the languages: matching is anchored at the
  start of the string (\<^verbatim>\<open>re.match\<close>), it is neither a search anywhere in
  the string nor a match of the whole string. The pattern \<^verbatim>\<open>python\<close>
  accepts the language \<^verbatim>\<open>python3\<close>.
\<close>

theorem wants_prefix_semantics:
  "wants l message langs = Inr True \<longleftrightarrow>
     (case method_pattern l of
        None \<Rightarrow> True
      | Some p \<Rightarrow> \<exists>m u v. getitem message ''method'' = Inr (JStr m) \<and> m = u @ v \<and> u \<in> lang p) \<and>
     (case MessageListener.language l of
        None \<Rightarrow> True
      | Some p \<Rightarrow> \<exists>x \<in> set langs. \<exists>u v. x = u @ v \<and> u \<in> lang p)"
proof (cases "method_pattern l")
  case None
  then show ?thesis by (simp add: wants_def wants_language_prefix)
next
  case (Some p)
  show ?thesis
  proof (cases "getitem message ''method''")
    case (Inl e)
    with Some show ?thesis by (simp add: wants_def)
  next
    case (Inr v)
    with Some show ?thesis
      by (cases v) (auto simp: wants_def wants_language_prefix re_match_lang)
  qed
qed

theorem wants_prefix_semantics_witness:
  "wants \<lparr>listener = quiet, language = Some (lit ''python''), method_pattern = None\<rparr> (JObj [])
     [''python3''] = Inr True"
  using wants_prefix_semantics
    [of "\<lparr>listener = quiet, language = Some (lit ''python''), method_pattern = None\<rparr>" "JObj []"
        "[''python3'']"]
  by (simp add: lang_lit)

text \<open>
  C2 as stated fails: the pattern \<^verbatim>\<open>ython\<close> is found by a search in
  \<^verbatim>\<open>python\<close>, and \<^verbatim>\<open>didOpen\<close> in
  \<^verbatim>\<open>textDocument/didOpen\<close>, but the listener does not want the message.
\<close>

theorem wants_search_counterexample:
  "re_search (lit ''ython'') ''python'' \<and>
   wants \<lparr>listener = quiet, language = Some (lit ''ython''), method_pattern = None\<rparr> (JObj [])
     [''python''] = Inr False \<and>
   re_search (lit ''didOpen'') ''textDocument/didOpen'' \<and>
   wants \<lparr>listener = quiet, language = None, method_pattern = Some (lit ''didOpen'')\<rparr>
     (JObj [(''method'', JStr ''textDocument/didOpen'')]) [''python''] = Inr False"
  by (simp add: wants_def wants_language_def)

text \<open>
  C3: a listener with a method pattern, asked about a message without a
  \<^verbatim>\<open>method\<close> field, should answer false. Here the message is a response
  \<^verbatim>\<open>{"id": 1, "result": null}\<close>, and \<^verbatim>\<open>wants\<close> raises
  KeyError instead.
\<close>

theorem wants_missing_method_raises:
  "wants \<lparr>listener = quiet, language = None, method_pattern = Some (lit ''textDocument/didOpen'')\<rparr>
     (JObj [(''id'', JNum 1), (''result'', JNull)]) [''python''] = Inl KeyError"
  by (simp add: wants_def)

lemma wants_missing_method:
  "method_pattern l = Some p \<Longrightarrow> map_of items ''method'' = None \<Longrightarrow>
     wants l (JObj items) langs = Inl KeyError"
  by (simp add: wants_def)

section \<open>Resolved specs\<close>

lemma map_of_dict_update: "map_of (dict_update d items) = map_of d ++ map_of (rev items)"
proof (induction items arbitrary: d)
  case Nil
  then show ?case by (simp add: dict_update_def)
next
  case (Cons x items)
  obtain k v where x: "x = (k, v)" by (cases x)
  have "dict_update d (x # items) = dict_update (AList.update k v d) items"
    by (simp add: dict_update_def x)
  also have "map_of \<dots> = (map_of d)(k \<mapsto> v) ++ map_of (rev items)"
    by (simp only: Cons.IH update_conv')
  also have "\<dots> = map_of d ++ map_of (rev (x # items))"
    by (simp add: x map_add_upd_left fun_eq_iff map_add_def split: option.split)
  finally show ?case .
qed

lemma map_of_rev_distinct: "distinct (map fst xs) \<Longrightarrow> map_of (rev xs) = map_of xs"
proof -
  assume d: "distinct (map fst xs)"
  then have "distinct (map fst (rev xs))" by (simp add: rev_map [symmetric])
  with d show ?thesis by (simp add: map_of_inject_set)
qed

lemma distinct_dict_update:
  "distinct (map fst d) \<Longrightarrow> distinct (map fst (dict_update d items))"
  by (induction items arbitrary: d) (auto simp: dict_update_def distinct_update)

lemma map_of_filter_snd:
  "distinct (map fst xs) \<Longrightarrow>
     map_of (filter (\<lambda>(k, v). P v) xs) key =
       (case map_of xs key of None \<Rightarrow> None | Some v \<Rightarrow> if P v then Some v else None)"
proof (induction xs)
  case Nil
  then show ?case by simp
next
  case (Cons x xs)
  obtain k v where x: "x = (k, v)" by (cases x)
  from Cons.prems x have notin: "k \<notin> fst ` set xs" by simp
  then have none: "map_of xs k = None" by (simp add: map_of_eq_None_iff)
  from Cons show ?case
    by (auto simp: x none split: option.split)
qed

text \<open>
  C5: the resolved map is the auto-detected pairs (when \<^verbatim>\<open>autodetect\<close> is
  set) overlaid by the configured map, whose entries win on a common key, and then
  filtered to the specs with a non-empty \<^verbatim>\<open>argv\<close> and non-empty
  \<^verbatim>\<open>languages\<close>. So a key configured with an empty \<^verbatim>\<open>argv\<close>
  or empty \<^verbatim>\<open>languages\<close> is not a key of the resolved map.
\<close>

theorem init_language_servers_overlay_filter:
  assumes "distinct (map fst (language_servers self))"
  shows "map_of (language_servers (init_language_servers detected self)) key =
           (case ((if autodetect self then map_of (rev detected) else Map.empty)
                    ++ map_of (language_servers self)) key of
              None \<Rightarrow> None
            | Some s \<Rightarrow> if truthy (argv s) \<and> truthy (languages s) then Some s else None) \<and>
         distinct (map fst (language_servers (init_language_servers detected self))) \<and>
         (\<forall>s. map_of (language_servers self) key = Some s \<and>
               \<not> (truthy (argv s) \<and> truthy (languages s)) \<longrightarrow>
               key \<notin> fst ` set (language_servers (init_language_servers detected self)))"
proof -
  define merged where
    "merged = dict_update (if autodetect self then dict_update [] detected else [])
                (language_servers self)"
  have res: "language_servers (init_language_servers detected self) =
      filter (\<lambda>(k, s). truthy (argv s) \<and> truthy (languages s)) merged"
    by (simp add: init_language_servers_def merged_def Let_def)
  have dm: "distinct (map fst merged)"
    unfolding merged_def by (intro distinct_dict_update) (simp add: distinct_dict_update)
  have mm: "map_of merged =
      (if autodetect self then map_of (rev detected) else Map.empty)
        ++ map_of (language_servers self)"
    using assms
    by (simp add: merged_def map_of_dict_update map_of_rev_distinct)
  have one: "map_of (language_servers (init_language_servers detected self)) key =
      (case map_of merged key of
         None \<Rightarrow> None
       | Some s \<Rightarrow> if truthy (argv s) \<and> truthy (languages s) then Some s else None)"
    unfolding res using dm by (rule map_of_filter_snd)
  have two: "distinct (map fst (language_servers (init_language_servers detected self)))"
    unfolding res using dm by (simp add: distinct_map_filter)
  have three: "key \<notin> fst ` set (language_servers (init_language_servers detected self))"
    if "map_of (language_servers self) key = Some s"
      "\<not> (truthy (argv s) \<and> truthy (languages s))" for s
  proof -
    from that have "map_of (language_servers (init_language_servers detected self)) key = None"
      unfolding one mm by (simp add: map_add_def)
    then show ?thesis by (simp add: map_of_eq_None_iff)
  qed
  from one two three show ?thesis unfolding mm by blast
qed

theorem init_language_servers_overlay_filter_witness:
  "distinct (map fst (language_servers override_manager)) \<and>
   autodetect override_manager \<and>
   map_of (rev [(''py'', pyls_spec)]) ''py'' = Some pyls_spec \<and>
   map_of (language_servers override_manager) ''py'' = Some disabled_spec \<and>
   map_of (language_servers (init_language_servers [(''py'', pyls_spec)] override_manager)) ''py''
     = None \<and>
   ''py'' \<notin> fst ` set (language_servers (init_language_servers [(''py'', pyls_spec)] override_manager))"
  using init_language_servers_overlay_filter [of override_manager "[(''py'', pyls_spec)]" "''py''"]
  by (simp add: override_manager_def disabled_spec_def)

section \<open>The session table\<close>

lemma init_sessions_loop_total:
  assumes "\<forall>s \<in> set specs. languages s \<noteq> None"
  shows "init_sessions_loop specs acc =
           Inr (dict_update acc (map (\<lambda>s. (sort (the (languages s)), new_session s)) specs))"
  using assms
proof (induction specs arbitrary: acc)
  case Nil
  then show ?case by (simp add: dict_update_def)
next
  case (Cons s specs)
  then obtain ls where ls: "languages s = Some ls" by auto
  from Cons.prems have "\<forall>s \<in> set specs. languages s \<noteq> None" by simp
  then show ?case by (simp add: ls Cons.IH dict_update_def)
qed

lemma map_of_map_find:
  "map_of (map (\<lambda>s. (f s, g s)) xs) k = map_option g (find (\<lambda>s. f s = k) xs)"
  by (induction xs) auto

lemma sort_distinct: "distinct ls \<Longrightarrow> sort ls = sorted_list_of_set (set ls)"
  for ls :: "string list"
  by (simp add: sorted_list_of_set_sort_remdups distinct_remdups_id)

text \<open>
  C4: when every spec lists its languages, none of them twice,
  \<^verbatim>\<open>init_sessions\<close> returns; no two sessions share a key; the session under
  a key is the one built from the last spec, in iteration order, whose sorted,
  deduplicated tuple of languages is that key; and for every spec there is a session
  under the sorted, deduplicated tuple of its languages, built from a spec that serves
  the same set of languages. So specs that serve the same set of languages have one
  session, that of the last of them.
\<close>

theorem init_sessions_sorted_keys:
  assumes "\<forall>s \<in> set (map snd (language_servers self)). \<exists>ls. languages s = Some ls \<and> distinct ls"
  shows "\<exists>ss. init_sessions self = Inr (self\<lparr>sessions := ss\<rparr>) \<and>
           distinct (map fst ss) \<and>
           (\<forall>k. map_of ss k =
              map_option new_session
                (find (\<lambda>s. map_option (\<lambda>ls. sorted_list_of_set (set ls)) (languages s) = Some k)
                   (rev (map snd (language_servers self))))) \<and>
           (\<forall>s \<in> set (map snd (language_servers self)). \<forall>ls. languages s = Some ls \<longrightarrow>
              (\<exists>s' ls'. map_of ss (sorted_list_of_set (set ls)) = Some (new_session s') \<and>
                 s' \<in> set (map snd (language_servers self)) \<and>
                 languages s' = Some ls' \<and> set ls' = set ls))"
proof -
  define specs where "specs = map snd (language_servers self)"
  define key where "key = (\<lambda>ls :: string list. sorted_list_of_set (set ls))"
  define ss where
    "ss = dict_update [] (map (\<lambda>s. (sort (the (languages s)), new_session s)) specs)"
  from assms have present: "\<forall>s \<in> set specs. languages s \<noteq> None"
    unfolding specs_def by auto
  then have loop: "init_sessions_loop specs [] = Inr ss"
    unfolding ss_def by (rule init_sessions_loop_total)
  then have one: "init_sessions self = Inr (self\<lparr>sessions := ss\<rparr>)"
    by (simp add: init_sessions_def specs_def)
  have two: "distinct (map fst ss)"
    unfolding ss_def by (rule distinct_dict_update) simp
  have three: "map_of ss k =
      map_option new_session (find (\<lambda>s. map_option key (languages s) = Some k) (rev specs))"
    for k
  proof -
    have "map_of ss k =
        map_of (map (\<lambda>s. (sort (the (languages s)), new_session s)) (rev specs)) k"
      by (simp add: ss_def map_of_dict_update rev_map)
    also have "\<dots> =
        map_option new_session (find (\<lambda>s. sort (the (languages s)) = k) (rev specs))"
      by (rule map_of_map_find)
    also have "find (\<lambda>s. sort (the (languages s)) = k) (rev specs) =
        find (\<lambda>s. map_option key (languages s) = Some k) (rev specs)"
    proof (rule find_cong [OF refl])
      fix s assume "s \<in> set (rev specs)"
      with assms obtain ls where "languages s = Some ls" "distinct ls"
        unfolding specs_def by auto
      then show "(sort (the (languages s)) = k) = (map_option key (languages s) = Some k)"
        by (simp add: key_def sort_distinct)
    qed
    finally show ?thesis .
  qed
  have four: "\<exists>s' ls'. map_of ss (key ls) = Some (new_session s') \<and> s' \<in> set specs \<and>
      languages s' = Some ls' \<and> set ls' = set ls"
    if s: "s \<in> set specs" "languages s = Some ls" for s ls
  proof -
    let ?P = "\<lambda>s. map_option key (languages s) = Some (key ls)"
    from s have "s \<in> set (rev specs)" "?P s" by simp_all
    then have "find ?P (rev specs) \<noteq> None" by (auto simp: find_None_iff)
    then obtain s' where s': "find ?P (rev specs) = Some s'" by auto
    then obtain i where "i < length (rev specs)" "?P (rev specs ! i)" "s' = rev specs ! i"
      unfolding find_Some_iff by blast
    then have "?P s'" "s' \<in> set (rev specs)"
      using nth_mem [of i "rev specs"] by simp_all
    then have "?P s'" "s' \<in> set specs" by simp_all
    then obtain ls' where ls': "languages s' = Some ls'" "key ls' = key ls" by auto
    from ls'(2) have "set (key ls') = set (key ls)" by simp
    then have "set ls' = set ls" by (simp add: key_def)
    with s' \<open>s' \<in> set specs\<close> ls'(1) show ?thesis by (auto simp: three)
  qed
  from one two three four show ?thesis unfolding specs_def key_def by blast
qed

theorem init_sessions_sorted_keys_witness:
  "languages pyls_spec = Some [''python''] \<and> distinct [''python''] \<and>
   languages yaml_json_spec = Some [''yaml'', ''json''] \<and> distinct [''yaml'', ''json''] \<and>
   languages jedi_spec = Some [''python''] \<and>
   init_sessions same_language_manager =
     Inr (same_language_manager
            \<lparr>sessions := [([''python''], new_session jedi_spec),
                          ([''json'', ''yaml''], new_session yaml_json_spec)]\<rparr>)"
  using init_sessions_sorted_keys [of same_language_manager]
  by (simp add: same_language_manager_def pyls_spec_def yaml_json_spec_def jedi_spec_def
      init_sessions_def)

section \<open>Subscribing and unsubscribing\<close>

lemma union_single: "List.union [h] hs = List.insert h hs"
  by (simp add: List.union_def)

lemma map_index: "map (\<lambda>j. f (xs ! j)) [0..<length xs] = map f xs"
proof -
  have "map (\<lambda>j. f (xs ! j)) [0..<length xs] = map f (map (\<lambda>j. xs ! j) [0..<length xs])"
    by (simp add: comp_def)
  also have "\<dots> = map f xs" by (simp only: map_nth)
  finally show ?thesis .
qed

lemma subscribe_loop_sets:
  assumes "\<forall>hs. store (PySet hs) = PySet hs"
    and "distinct js"
    and "\<forall>j \<in> set js. j < length ss \<and> (\<exists>hs. handlers (snd (ss ! j)) = PySet hs)"
  shows "subscribe_loop store h js ss =
           (Inr (), map (\<lambda>j. if j \<in> set js then add_handler h (ss ! j) else ss ! j)
                      [0..<length ss])"
  using assms(2,3)
proof (induction js arbitrary: ss)
  case Nil
  then show ?case by (simp add: map_nth)
next
  case (Cons i js)
  from Cons.prems(2) obtain hs where i: "i < length ss" "handlers (snd (ss ! i)) = PySet hs"
    by auto
  define ss1 where "ss1 = ss[i := add_handler h (ss ! i)]"
  have len: "length ss1 = length ss" by (simp add: ss1_def)
  have step: "subscribe_loop store h (i # js) ss = subscribe_loop store h js ss1"
    using assms(1) by (simp add: i union_single ss1_def add_handler_def)
  have other: "ss1 ! j = ss ! j" if "j \<in> set js" for j
  proof -
    from that Cons.prems(1) have "i \<noteq> j" by auto
    then show ?thesis by (simp add: ss1_def)
  qed
  from Cons.prems(1) have "distinct js" by simp
  moreover have "\<forall>j \<in> set js. j < length ss1 \<and> (\<exists>hs. handlers (snd (ss1 ! j)) = PySet hs)"
    using Cons.prems(2) other by (simp add: len)
  ultimately have "subscribe_loop store h js ss1 =
      (Inr (), map (\<lambda>j. if j \<in> set js then add_handler h (ss1 ! j) else ss1 ! j)
                 [0..<length ss1])"
    by (rule Cons.IH)
  also have "map (\<lambda>j. if j \<in> set js then add_handler h (ss1 ! j) else ss1 ! j) [0..<length ss1] =
      map (\<lambda>j. if j \<in> set (i # js) then add_handler h (ss ! j) else ss ! j) [0..<length ss]"
    unfolding len
  proof (rule map_cong [OF refl])
    fix j assume "j \<in> set [0..<length ss]"
    then have j: "j < length ss" by simp
    show "(if j \<in> set js then add_handler h (ss1 ! j) else ss1 ! j) =
          (if j \<in> set (i # js) then add_handler h (ss ! j) else ss ! j)"
    proof (cases "j = i")
      case True
      with Cons.prems(1) have "j \<notin> set js" by simp
      with True i(1) show ?thesis by (simp add: ss1_def)
    next
      case False
      then have "ss1 ! j = ss ! j" by (simp add: ss1_def)
      with False show ?thesis by simp
    qed
  qed
  finally show ?case using step by simp
qed

lemma subscribe_sets:
  assumes "\<forall>hs. store (PySet hs) = PySet hs"
    and "\<forall>ks \<in> set (sessions self). is_set (handlers (snd ks))"
  shows "subscribe store self h =
           (Inr (), self\<lparr>sessions :=
              map (\<lambda>ks. if handler.language h \<in> set (fst ks) then add_handler h ks else ks)
                (sessions self)\<rparr>)"
proof -
  let ?ss = "sessions self"
  let ?js = "candidate_sessions self h"
  have d: "distinct ?js" by (simp add: candidate_sessions_def)
  have sets: "\<forall>j \<in> set ?js. j < length ?ss \<and> (\<exists>hs. handlers (snd (?ss ! j)) = PySet hs)"
  proof
    fix j assume "j \<in> set ?js"
    then have j: "j < length ?ss" by (simp add: candidate_sessions_def)
    then have "is_set (handlers (snd (?ss ! j)))" using assms(2) by simp
    then have "\<exists>hs. handlers (snd (?ss ! j)) = PySet hs"
      by (cases "handlers (snd (?ss ! j))") simp_all
    with j show "j < length ?ss \<and> (\<exists>hs. handlers (snd (?ss ! j)) = PySet hs)" by simp
  qed
  have "subscribe_loop store h ?js ?ss =
      (Inr (), map (\<lambda>j. if j \<in> set ?js then add_handler h (?ss ! j) else ?ss ! j)
                 [0..<length ?ss])"
    using assms(1) d sets by (rule subscribe_loop_sets)
  also have "map (\<lambda>j. if j \<in> set ?js then add_handler h (?ss ! j) else ?ss ! j) [0..<length ?ss] =
      map (\<lambda>j. (\<lambda>ks. if handler.language h \<in> set (fst ks) then add_handler h ks else ks) (?ss ! j))
        [0..<length ?ss]"
    by (rule map_cong [OF refl]) (simp add: candidate_sessions_def)
  also have "\<dots> =
      map (\<lambda>ks. if handler.language h \<in> set (fst ks) then add_handler h ks else ks) ?ss"
    by (rule map_index)
  finally show ?thesis by (simp add: subscribe_def)
qed

text \<open>
  Where a candidate session holds a list, the union raises TypeError, whatever the
  sessions before it hold.
\<close>

lemma subscribe_loop_list_raises:
  assumes "distinct js"
    and "i \<in> set js"
    and "handlers (snd (ss ! i)) = PyList hs"
  shows "fst (subscribe_loop store h js ss) = Inl TypeError"
  using assms
proof (induction js arbitrary: ss)
  case Nil
  then show ?case by simp
next
  case (Cons j js)
  show ?case
  proof (cases "handlers (snd (ss ! j))")
    case (PyList ys)
    then show ?thesis by simp
  next
    case (PySet ys)
    with Cons.prems(3) have ne: "j \<noteq> i" by auto
    with Cons.prems(2) have mem: "i \<in> set js" by simp
    define ss1 where
      "ss1 = ss[j := (fst (ss ! j), (snd (ss ! j))\<lparr>handlers := store (PySet (List.union [h] ys))\<rparr>)]"
    from ne Cons.prems(3) have "handlers (snd (ss1 ! i)) = PyList hs" by (simp add: ss1_def)
    moreover from Cons.prems(1) have "distinct js" by simp
    ultimately have "fst (subscribe_loop store h js ss1) = Inl TypeError"
      using mem by (intro Cons.IH)
    with PySet show ?thesis by (simp add: ss1_def)
  qed
qed

lemma count_list_distinct: "distinct xs \<Longrightarrow> x \<in> set xs \<Longrightarrow> count_list xs x = 1"
  by (induction xs) auto

lemma add_handler_twice: "add_handler h (add_handler h ks) = add_handler h ks"
  by (simp add: add_handler_def)

lemma is_set_elems: "is_set v \<Longrightarrow> v = PySet (elems v) \<and> distinct (elems v)"
  by (cases v) simp_all

lemma add_handler_is_set:
  "is_set (handlers (snd ks)) \<Longrightarrow> is_set (handlers (snd (add_handler h ks)))"
  using is_set_elems [of "handlers (snd ks)"] by (simp add: add_handler_def)

text \<open>
  C8: when the handlers of every session are a set (and a session holds an assigned set
  as it is), \<^verbatim>\<open>subscribe\<close> returns normally; a session whose key contains
  the handler's language gets the handler added to its set, where it occurs once, and
  every other session is unchanged; subscribing the same handler again changes nothing.
\<close>

theorem subscribe_adds_once:
  assumes "\<forall>hs. store (PySet hs) = PySet hs"
    and "\<forall>ks \<in> set (sessions self). is_set (handlers (snd ks))"
  shows "\<exists>self'. subscribe store self h = (Inr (), self') \<and>
           length (sessions self') = length (sessions self) \<and>
           (\<forall>i < length (sessions self).
              fst (sessions self' ! i) = fst (sessions self ! i) \<and>
              (if handler.language h \<in> set (fst (sessions self ! i))
               then spec (snd (sessions self' ! i)) = spec (snd (sessions self ! i)) \<and>
                    is_set (handlers (snd (sessions self' ! i))) \<and>
                    set (elems (handlers (snd (sessions self' ! i)))) =
                      insert h (set (elems (handlers (snd (sessions self ! i))))) \<and>
                    count_list (elems (handlers (snd (sessions self' ! i)))) h = 1
               else sessions self' ! i = sessions self ! i)) \<and>
           subscribe store self' h = (Inr (), self')"
proof -
  let ?F = "\<lambda>ks. if handler.language h \<in> set (fst ks) then add_handler h ks else ks"
  define self' where "self' = self\<lparr>sessions := map ?F (sessions self)\<rparr>"
  have first: "subscribe store self h = (Inr (), self')"
    unfolding self'_def using assms by (rule subscribe_sets)
  have ss': "sessions self' = map ?F (sessions self)" by (simp add: self'_def)
  have inv': "\<forall>ks \<in> set (sessions self'). is_set (handlers (snd ks))"
    using assms(2) by (auto simp: ss' add_handler_is_set)
  have "subscribe store self' h = (Inr (), self'\<lparr>sessions := map ?F (sessions self')\<rparr>)"
    using assms(1) inv' by (rule subscribe_sets)
  moreover have "map ?F (sessions self') = sessions self'"
    by (simp add: ss' add_handler_twice add_handler_def)
  ultimately have again: "subscribe store self' h = (Inr (), self')" by simp
  have each: "fst (sessions self' ! i) = fst (sessions self ! i) \<and>
      (if handler.language h \<in> set (fst (sessions self ! i))
       then spec (snd (sessions self' ! i)) = spec (snd (sessions self ! i)) \<and>
            is_set (handlers (snd (sessions self' ! i))) \<and>
            set (elems (handlers (snd (sessions self' ! i)))) =
              insert h (set (elems (handlers (snd (sessions self ! i))))) \<and>
            count_list (elems (handlers (snd (sessions self' ! i)))) h = 1
       else sessions self' ! i = sessions self ! i)"
    if i: "i < length (sessions self)" for i
  proof -
    from i assms(2) have "is_set (handlers (snd (sessions self ! i)))" by simp
    then have d: "distinct (elems (handlers (snd (sessions self ! i))))"
      by (simp add: is_set_elems)
    from i have nth: "sessions self' ! i = ?F (sessions self ! i)" by (simp add: ss')
    show ?thesis
      unfolding nth using d by (simp add: add_handler_def count_list_distinct)
  qed
  have len: "length (sessions self') = length (sessions self)" by (simp add: ss')
  from first len each again show ?thesis by blast
qed

theorem subscribe_adds_once_witness:
  "kept_as_set (PySet [json_handler]) = PySet [json_handler] \<and>
   list_all (\<lambda>ks. is_set (handlers (snd ks))) (sessions running_manager) \<and>
   subscribe kept_as_set running_manager json_handler =
     (Inr (), running_manager
        \<lparr>sessions := [([''python''], \<lparr>spec = pyls_spec, handlers = PySet [python_handler]\<rparr>),
                      ([''json'', ''yaml''],
                       \<lparr>spec = yaml_json_spec, handlers = PySet [json_handler]\<rparr>)]\<rparr>) \<and>
   subscribe kept_as_set (snd (subscribe kept_as_set running_manager json_handler)) json_handler =
     subscribe kept_as_set running_manager json_handler"
  using subscribe_adds_once [of kept_as_set running_manager json_handler]
  by (simp add: running_manager_def json_handler_def python_handler_def subscribe_def
      candidate_sessions_def union_single)

lemma unsubscribe_nth:
  assumes "i < length (sessions self)"
  shows "sessions (unsubscribe store self h) ! i =
           (if h \<in> set (elems (handlers (snd (sessions self ! i))))
            then (fst (sessions self ! i),
                  (snd (sessions self ! i))\<lparr>handlers :=
                     store (PyList (filter (\<lambda>h'. h' \<noteq> h)
                              (elems (handlers (snd (sessions self ! i))))))\<rparr>)
            else sessions self ! i)"
  using assms by (simp add: unsubscribe_def split_beta)

lemma unsubscribe_keys:
  "map fst (sessions (unsubscribe store self h)) = map fst (sessions self)"
  by (simp add: unsubscribe_def split_beta comp_def)

lemma unsubscribe_sessions:
  assumes "\<forall>hs. store (PyList hs) = PySet (remdups hs)"
    and "\<forall>ks \<in> set (sessions self). is_set (handlers (snd ks))"
  shows "sessions (unsubscribe store self h) =
           map (\<lambda>ks. (fst ks, (snd ks)\<lparr>handlers :=
                  PySet (filter (\<lambda>h'. h' \<noteq> h) (elems (handlers (snd ks))))\<rparr>))
             (sessions self)"
proof -
  have "(case ks of (k, session) \<Rightarrow>
           if h \<in> set (elems (handlers session))
           then (k, session\<lparr>handlers :=
                  store (PyList (filter (\<lambda>h'. h' \<noteq> h) (elems (handlers session))))\<rparr>)
           else (k, session)) =
        (fst ks, (snd ks)\<lparr>handlers :=
           PySet (filter (\<lambda>h'. h' \<noteq> h) (elems (handlers (snd ks))))\<rparr>)"
    if "ks \<in> set (sessions self)" for ks
  proof -
    obtain k session where ks: "ks = (k, session)" by (cases ks)
    from that assms(2) ks have "is_set (handlers session)" by auto
    then have v: "handlers session = PySet (elems (handlers session))"
      and d: "distinct (elems (handlers session))"
      using is_set_elems by auto
    show ?thesis
    proof (cases "h \<in> set (elems (handlers session))")
      case True
      with d assms(1) show ?thesis by (simp add: ks)
    next
      case False
      then have "filter (\<lambda>h'. h' \<noteq> h) (elems (handlers session)) = elems (handlers session)"
        by (auto intro: filter_True)
      with False v show ?thesis by (simp add: ks)
    qed
  qed
  then show ?thesis by (simp add: unsubscribe_def cong: map_cong)
qed

lemma unsubscribe_kept_as_set:
  assumes "\<forall>hs. store (PySet hs) = PySet hs"
    and "\<forall>hs. store (PyList hs) = PySet (remdups hs)"
    and "\<forall>ks \<in> set (sessions self). is_set (handlers (snd ks))"
  shows "(\<forall>i < length (sessions self).
            is_set (handlers (snd (sessions (unsubscribe store self h) ! i))) \<and>
            set (elems (handlers (snd (sessions (unsubscribe store self h) ! i)))) =
              set (elems (handlers (snd (sessions self ! i)))) - {h}) \<and>
         (\<forall>h'. \<exists>self'. subscribe store (unsubscribe store self h) h' = (Inr (), self') \<and>
            (\<forall>ks \<in> set (sessions self').
               handler.language h' \<in> set (fst ks) \<longrightarrow> h' \<in> set (elems (handlers (snd ks)))))"
proof -
  let ?G = "\<lambda>ks. (fst ks, (snd ks)\<lparr>handlers :=
                  PySet (filter (\<lambda>h'. h' \<noteq> h) (elems (handlers (snd ks))))\<rparr>)"
  have un: "sessions (unsubscribe store self h) = map ?G (sessions self)"
    using assms(2,3) by (rule unsubscribe_sessions)
  have each: "is_set (handlers (snd (sessions (unsubscribe store self h) ! i))) \<and>
      set (elems (handlers (snd (sessions (unsubscribe store self h) ! i)))) =
        set (elems (handlers (snd (sessions self ! i)))) - {h}"
    if i: "i < length (sessions self)" for i
  proof -
    from i assms(3) have "is_set (handlers (snd (sessions self ! i)))" by simp
    then have "distinct (elems (handlers (snd (sessions self ! i))))"
      by (simp add: is_set_elems)
    with i show ?thesis by (auto simp: un)
  qed
  have inv: "\<forall>ks \<in> set (sessions (unsubscribe store self h)). is_set (handlers (snd ks))"
  proof
    fix ks assume "ks \<in> set (sessions (unsubscribe store self h))"
    then obtain i where "i < length (sessions self)" "ks = sessions (unsubscribe store self h) ! i"
      by (auto simp: un in_set_conv_nth)
    with each show "is_set (handlers (snd ks))" by simp
  qed
  have again: "\<exists>self'. subscribe store (unsubscribe store self h) h' = (Inr (), self') \<and>
      (\<forall>ks \<in> set (sessions self').
         handler.language h' \<in> set (fst ks) \<longrightarrow> h' \<in> set (elems (handlers (snd ks))))"
    for h'
  proof -
    let ?F = "\<lambda>ks. if handler.language h' \<in> set (fst ks) then add_handler h' ks else ks"
    define self' where
      "self' = (unsubscribe store self h)\<lparr>sessions := map ?F (sessions (unsubscribe store self h))\<rparr>"
    have sub: "subscribe store (unsubscribe store self h) h' = (Inr (), self')"
      unfolding self'_def using assms(1) inv by (rule subscribe_sets)
    have member: "\<forall>ks \<in> set (sessions self').
        handler.language h' \<in> set (fst ks) \<longrightarrow> h' \<in> set (elems (handlers (snd ks)))"
      by (auto simp: self'_def add_handler_def)
    from sub member show ?thesis by blast
  qed
  from each again show ?thesis by blast
qed

lemma unsubscribe_stored_as_assigned:
  assumes "\<forall>hs. store (PyList hs) = PyList hs"
    and "i < length (sessions self)"
    and "h \<in> set (elems (handlers (snd (sessions self ! i))))"
    and "handler.language h' \<in> set (fst (sessions self ! i))"
  shows "handlers (snd (sessions (unsubscribe store self h) ! i)) =
           PyList (filter (\<lambda>x. x \<noteq> h) (elems (handlers (snd (sessions self ! i))))) \<and>
         fst (subscribe store (unsubscribe store self h) h') = Inl TypeError"
proof -
  let ?u = "unsubscribe store self h"
  let ?rest = "filter (\<lambda>x. x \<noteq> h) (elems (handlers (snd (sessions self ! i))))"
  have stored: "handlers (snd (sessions ?u ! i)) = PyList ?rest"
    using assms(1,2,3) by (simp add: unsubscribe_nth)
  have keys: "map fst (sessions ?u) = map fst (sessions self)"
    by (rule unsubscribe_keys)
  then have len: "length (sessions ?u) = length (sessions self)"
    by (metis length_map)
  from keys assms(2) have "fst (sessions ?u ! i) = fst (sessions self ! i)"
    by (metis len nth_map)
  with assms(2,4) len have cand: "i \<in> set (candidate_sessions ?u h')"
    by (simp add: candidate_sessions_def)
  have "distinct (candidate_sessions ?u h')" by (simp add: candidate_sessions_def)
  then have "fst (subscribe_loop store h' (candidate_sessions ?u h') (sessions ?u)) = Inl TypeError"
    using cand stored by (rule subscribe_loop_list_raises)
  then have "fst (subscribe store ?u h') = Inl TypeError"
    by (simp add: subscribe_def split_beta)
  with stored show ?thesis by simp
qed

text \<open>
  C10, as amended. \<^verbatim>\<open>unsubscribe\<close> assigns the list of the remaining
  handlers. If the session keeps its handlers as a set (as modelled from the
  specification), the handlers of every session are a set afterwards, without the
  handler, and a following \<^verbatim>\<open>subscribe\<close> of any handler returns normally
  and makes that handler a member of every session whose key contains its language. If
  the session holds the list as it was assigned, a session that had the handler holds a
  list afterwards, and a following \<^verbatim>\<open>subscribe\<close> of any handler whose
  language is in the key of that session raises TypeError.
\<close>

theorem unsubscribe_then_subscribe:
  assumes "\<forall>ks \<in> set (sessions self). is_set (handlers (snd ks))"
  shows "((\<forall>hs. store (PySet hs) = PySet hs) \<and> (\<forall>hs. store (PyList hs) = PySet (remdups hs)) \<longrightarrow>
            (\<forall>i < length (sessions self).
               is_set (handlers (snd (sessions (unsubscribe store self h) ! i))) \<and>
               set (elems (handlers (snd (sessions (unsubscribe store self h) ! i)))) =
                 set (elems (handlers (snd (sessions self ! i)))) - {h}) \<and>
            (\<forall>h'. \<exists>self'. subscribe store (unsubscribe store self h) h' = (Inr (), self') \<and>
               (\<forall>ks \<in> set (sessions self').
                  handler.language h' \<in> set (fst ks) \<longrightarrow>
                  h' \<in> set (elems (handlers (snd ks)))))) \<and>
         ((\<forall>hs. store (PyList hs) = PyList hs) \<longrightarrow>
            (\<forall>i < length (sessions self). \<forall>h'.
               h \<in> set (elems (handlers (snd (sessions self ! i)))) \<and>
               handler.language h' \<in> set (fst (sessions self ! i)) \<longrightarrow>
               handlers (snd (sessions (unsubscribe store self h) ! i)) =
                 PyList (filter (\<lambda>x. x \<noteq> h) (elems (handlers (snd (sessions self ! i))))) \<and>
               fst (subscribe store (unsubscribe store self h) h') = Inl TypeError))"
proof -
  have kept: "(\<forall>i < length (sessions self).
        is_set (handlers (snd (sessions (unsubscribe store self h) ! i))) \<and>
        set (elems (handlers (snd (sessions (unsubscribe store self h) ! i)))) =
          set (elems (handlers (snd (sessions self ! i)))) - {h}) \<and>
      (\<forall>h'. \<exists>self'. subscribe store (unsubscribe store self h) h' = (Inr (), self') \<and>
         (\<forall>ks \<in> set (sessions self').
            handler.language h' \<in> set (fst ks) \<longrightarrow> h' \<in> set (elems (handlers (snd ks)))))"
    if "\<forall>hs. store (PySet hs) = PySet hs" "\<forall>hs. store (PyList hs) = PySet (remdups hs)"
    using that assms by (rule unsubscribe_kept_as_set)
  have plain: "handlers (snd (sessions (unsubscribe store self h) ! i)) =
        PyList (filter (\<lambda>x. x \<noteq> h) (elems (handlers (snd (sessions self ! i))))) \<and>
      fst (subscribe store (unsubscribe store self h) h') = Inl TypeError"
    if "\<forall>hs. store (PyList hs) = PyList hs" "i < length (sessions self)"
      "h \<in> set (elems (handlers (snd (sessions self ! i))))"
      "handler.language h' \<in> set (fst (sessions self ! i))" for i h'
    using that by (rule unsubscribe_stored_as_assigned)
  from kept plain show ?thesis by blast
qed

theorem unsubscribe_then_subscribe_witness:
  "list_all (\<lambda>ks. is_set (handlers (snd ks))) (sessions running_manager) \<and>
   python_handler \<in> set (elems (handlers (snd (sessions running_manager ! 0)))) \<and>
   handler.language other_python_handler \<in> set (fst (sessions running_manager ! 0)) \<and>
   handlers (snd (sessions (unsubscribe kept_as_set running_manager python_handler) ! 0)) =
     PySet [] \<and>
   fst (subscribe kept_as_set (unsubscribe kept_as_set running_manager python_handler)
          other_python_handler) = Inr () \<and>
   handlers (snd (sessions (unsubscribe stored_as_assigned running_manager python_handler) ! 0)) =
     PyList [] \<and>
   fst (subscribe stored_as_assigned
          (unsubscribe stored_as_assigned running_manager python_handler) other_python_handler) =
     Inl TypeError \<and>
   fst (subscribe stored_as_assigned
          (unsubscribe stored_as_assigned running_manager python_handler) python_handler) =
     Inl TypeError"
  using unsubscribe_then_subscribe [of running_manager kept_as_set python_handler]
    unsubscribe_then_subscribe [of running_manager stored_as_assigned python_handler]
  by (simp add: running_manager_def python_handler_def other_python_handler_def subscribe_def
      unsubscribe_def candidate_sessions_def union_single stored_as_assigned_def)

text \<open>
  C10 as stated fails for a session that keeps its handlers as a set: after
  \<^verbatim>\<open>unsubscribe\<close> the session holds the empty set, not a list; subscribing
  the handler again raises nothing and restores the manager as it was, and subscribing
  another handler of the same language raises nothing either.
\<close>

theorem unsubscribe_list_counterexample:
  "sessions (unsubscribe kept_as_set running_manager python_handler) =
     [([''python''], \<lparr>spec = pyls_spec, handlers = PySet []\<rparr>),
      ([''json'', ''yaml''], \<lparr>spec = yaml_json_spec, handlers = PySet []\<rparr>)] \<and>
   subscribe kept_as_set (unsubscribe kept_as_set running_manager python_handler)
     python_handler = (Inr (), running_manager) \<and>
   fst (subscribe kept_as_set (unsubscribe kept_as_set running_manager python_handler)
          other_python_handler) = Inr ()"
  by (simp add: running_manager_def python_handler_def other_python_handler_def subscribe_def
      unsubscribe_def candidate_sessions_def union_single)

section \<open>The module lookup\<close>

lemma find_loop_find:
  "find_loop exists path_frag roots =
     map_option (\<lambda>r. Path r path_frag) (find (\<lambda>r. exists (Path r path_frag)) roots)"
  by (induction roots) auto

lemma find_append_first:
  "find P (xs @ ys) = (case find P xs of None \<Rightarrow> find P ys | Some x \<Rightarrow> Some x)"
  by (induction xs) auto

text \<open>
  The extra roots are searched before the default roots and the first existing candidate
  is returned; when no candidate exists the call raises TypeError.
\<close>

lemma find_node_module_first_match:
  "find_node_module exists self path_frag =
     (case find (\<lambda>r. exists (Path r path_frag)) (extra_node_roots self) of
        Some r \<Rightarrow> Inr (Some (Path r path_frag))
      | None \<Rightarrow>
          (case find (\<lambda>r. exists (Path r path_frag)) (node_roots self) of
             Some r \<Rightarrow> Inr (Some (Path r path_frag))
           | None \<Rightarrow> Inl TypeError))"
  by (simp add: find_node_module_def find_loop_find find_append_first Let_def
      split: option.split)

lemma find_node_module_miss:
  "find_node_module exists self path_frag = Inl TypeError \<longleftrightarrow>
     (\<forall>r \<in> set (extra_node_roots self @ node_roots self). \<not> exists (Path r path_frag))"
  by (auto simp: find_node_module_def find_loop_find Let_def find_None_iff)

lemma find_node_module_never_None:
  "find_node_module exists self path_frag \<noteq> Inr None"
  by (simp add: find_node_module_def Let_def)

lemma find_node_module_hits:
  "find_node_module installed roots_manager [''yaml-language-server'', ''bin''] =
     Inr (Some [''/opt/extra'', ''node_modules'', ''yaml-language-server'', ''bin'']) \<and>
   find_node_module installed (roots_manager\<lparr>extra_node_roots := []\<rparr>)
     [''yaml-language-server'', ''bin''] =
     Inr (Some [''/usr/lib'', ''node_modules'', ''yaml-language-server'', ''bin''])"
  by (simp add: find_node_module_def roots_manager_def installed_def Path_def)

text \<open>
  C9: \<^verbatim>\<open>find_node_module\<close> should return \<^verbatim>\<open>None\<close> when no
  candidate exists under any root. Here \<^verbatim>\<open>pyright\<close> is installed under
  none of the three roots, and the call raises TypeError instead.
\<close>

theorem find_node_module_miss_raises:
  "find_node_module installed roots_manager [''pyright''] = Inl TypeError"
  by (simp add: find_node_module_def roots_manager_def installed_def Path_def)

section \<open>Dispatch and delivery\<close>


lemma gather_events:
  "snd (gather futures) =
     map (\<lambda>f. Listener_ran (fst f)) (sort_key (\<lambda>f. fst (snd f)) futures)"
  by (simp add: gather_def Let_def)


lemma wait_for_listeners_no_delivery:
  "ev \<in> set (snd (wait_for_listeners loads self sc message langs)) \<Longrightarrow> \<not> is_delivery ev"
  by (auto simp: wait_for_listeners_def Let_def gather_events split: if_splits sum.splits)











text \<open>
  C6, as amended. For a message that \<^verbatim>\<open>json.loads\<close> rejects: when a
  listener is registered for the scope or for all scopes,
  \<^verbatim>\<open>wait_for_listeners\<close> raises the parser's exception before any listener is
  asked, \<^verbatim>\<open>on_client_message\<close> and \<^verbatim>\<open>on_server_message\<close> raise it
  too and the message is delivered nowhere; when no such listener is registered the
  message is never parsed and is delivered to every destination.
\<close>

theorem malformed_message_not_forwarded:
  assumes "loads message = Inl e"
  shows "wait_for_listeners loads self sc message langs =
           (if listeners self sc @ listeners self All_scopes = [] then (Inr (), [])
            else (Inl e, [])) \<and>
         on_client_message loads self message h =
           (if listeners self Client @ listeners self All_scopes = []
            then (Inr (), map (\<lambda>(k, session). Session_write k message)
                            (sessions_for_handler self h))
            else (Inl e, [])) \<and>
         (\<forall>ls. languages (spec session) = Some ls \<longrightarrow>
            on_server_message loads self message session =
              (if listeners self Server @ listeners self All_scopes = []
               then (Inr (), map (\<lambda>h. Handler_write h message) (elems (handlers session)))
               else (Inl e, [])))"
proof -
  have w: "wait_for_listeners loads self sc' message langs' =
      (if listeners self sc' @ listeners self All_scopes = [] then (Inr (), [])
       else (Inl e, []))" for sc' langs'
    using assms by (simp add: wait_for_listeners_def)
  show ?thesis
    by (simp add: w on_client_message_def on_server_message_def)
qed

theorem malformed_message_not_forwarded_witness:
  "example_loads garbled_message = Inl JSONDecodeError \<and>
   on_client_message example_loads running_manager garbled_message python_handler =
     (Inr (), [Session_write [''python''] garbled_message]) \<and>
   languages (spec \<lparr>spec = pyls_spec, handlers = PySet [python_handler]\<rparr>) = Some [''python''] \<and>
   on_server_message example_loads observed_manager garbled_message
     \<lparr>spec = pyls_spec, handlers = PySet [python_handler]\<rparr> = (Inl JSONDecodeError, [])"
  using malformed_message_not_forwarded
    [of example_loads garbled_message JSONDecodeError running_manager Client "[''python'']"
        python_handler "\<lparr>spec = pyls_spec, handlers = PySet [python_handler]\<rparr>"]
    malformed_message_not_forwarded
    [of example_loads garbled_message JSONDecodeError observed_manager Server "[''python'']"
        python_handler "\<lparr>spec = pyls_spec, handlers = PySet [python_handler]\<rparr>"]
  by (simp add: example_loads_def garbled_message_def initialize_message_def
      running_manager_def observed_manager_def no_listeners_def sessions_for_handler_def
      python_handler_def pyls_spec_def)

text \<open>
  C6 as stated fails: with listeners registered, a payload that is not JSON makes
  \<^verbatim>\<open>on_client_message\<close> raise, and nothing is written to the session the
  handler is subscribed to.
\<close>

theorem malformed_message_blocks_forwarding_counterexample:
  "example_loads garbled_message = Inl JSONDecodeError \<and>
   sessions_for_handler failing_manager python_handler =
     [([''python''], \<lparr>spec = pyls_spec, handlers = PySet [python_handler]\<rparr>)] \<and>
   on_client_message example_loads failing_manager garbled_message python_handler =
     (Inl JSONDecodeError, [])"
  by (simp add: example_loads_def garbled_message_def initialize_message_def
      failing_manager_def running_manager_def wait_for_listeners_def on_client_message_def
      sessions_for_handler_def python_handler_def)

text \<open>
  C7: what \<^verbatim>\<open>on_client_message\<close> does is what
  \<^verbatim>\<open>wait_for_listeners\<close> does, which delivers nothing, followed by the writes
  to the sessions, and there are writes only when \<^verbatim>\<open>wait_for_listeners\<close> has
  returned normally; the same holds of \<^verbatim>\<open>on_server_message\<close> and the writes
  to the handlers. So every run of a listener comes before every delivery of the message.
\<close>

theorem listeners_before_delivery:
  "(\<exists>ds. snd (on_client_message loads self message h) =
            snd (wait_for_listeners loads self Client message [handler.language h]) @ ds \<and>
          \<not> list_ex is_delivery
              (snd (wait_for_listeners loads self Client message [handler.language h])) \<and>
          list_all is_delivery ds \<and>
          (ds = [] \<or>
           fst (wait_for_listeners loads self Client message [handler.language h]) = Inr ())) \<and>
   (\<forall>ls. languages (spec session) = Some ls \<longrightarrow>
      (\<exists>ds. snd (on_server_message loads self message session) =
              snd (wait_for_listeners loads self Server message ls) @ ds \<and>
            \<not> list_ex is_delivery (snd (wait_for_listeners loads self Server message ls)) \<and>
            list_all is_delivery ds \<and>
            (ds = [] \<or> fst (wait_for_listeners loads self Server message ls) = Inr ())))"
proof -
  have quiet: "\<not> list_ex is_delivery (snd (wait_for_listeners loads self sc message langs))"
    for sc langs
    using wait_for_listeners_no_delivery [of _ loads self sc message langs]
    by (auto simp: list_ex_iff)
  have client: "\<exists>ds. snd (on_client_message loads self message h) =
            snd (wait_for_listeners loads self Client message [handler.language h]) @ ds \<and>
          list_all is_delivery ds \<and>
          (ds = [] \<or>
           fst (wait_for_listeners loads self Client message [handler.language h]) = Inr ())"
  proof (cases "wait_for_listeners loads self Client message [handler.language h]")
    case (Pair r evs)
    show ?thesis
    proof (cases r)
      case (Inl e)
      with Pair show ?thesis by (simp add: on_client_message_def)
    next
      case (Inr u)
      with Pair show ?thesis
        by (simp add: on_client_message_def list_all_iff split_beta)
    qed
  qed
  have server: "\<exists>ds. snd (on_server_message loads self message session) =
            snd (wait_for_listeners loads self Server message ls) @ ds \<and>
          list_all is_delivery ds \<and>
          (ds = [] \<or> fst (wait_for_listeners loads self Server message ls) = Inr ())"
    if ls: "languages (spec session) = Some ls" for ls
  proof (cases "wait_for_listeners loads self Server message ls")
    case (Pair r evs)
    show ?thesis
    proof (cases r)
      case (Inl e)
      with Pair ls show ?thesis by (simp add: on_server_message_def)
    next
      case (Inr u)
      with Pair ls show ?thesis
        by (simp add: on_server_message_def list_all_iff)
    qed
  qed
  from quiet client server show ?thesis by blast
qed

theorem listeners_before_delivery_witness:
  "on_client_message example_loads observed_manager initialize_message python_handler =
     (Inr (), [Listener_ran 0, Session_write [''python''] initialize_message]) \<and>
   languages (spec \<lparr>spec = pyls_spec, handlers = PySet [python_handler]\<rparr>) = Some [''python''] \<and>
   on_server_message example_loads observed_manager initialize_message
     \<lparr>spec = pyls_spec, handlers = PySet [python_handler]\<rparr> =
     (Inr (), [Listener_ran 0, Handler_write python_handler initialize_message])"
  using listeners_before_delivery
    [of example_loads observed_manager initialize_message python_handler
        "\<lparr>spec = pyls_spec, handlers = PySet [python_handler]\<rparr>"]
  by (simp add: example_loads_def observed_manager_def running_manager_def wants_def
      wants_language_def quiet_def wait_for_listeners_def gather_def
      List.map_filter_simps on_client_message_def on_server_message_def
      sessions_for_handler_def python_handler_def pyls_spec_def)

end
